theory Spec2Isabelle
  imports Main "HOL-Library.Word" "HOL-Library.Sublist" "HOL-Library.AList"
begin

unbundle bit_operations_syntax

section \<open>Python values\<close>

text \<open>
  A Python \<^verbatim>\<open>str\<close> is a \<^typ>\<open>string\<close>: a list of characters, each read as a code point
  in the range 0..255. Code points below 128 are ASCII and encode to one UTF-8 byte, the
  others to two. Python integers are unbounded: they are \<^typ>\<open>int\<close>. An exception is a
  value of \<open>error\<close>, and a computation that can raise returns \<open>error + 'a\<close>.
\<close>

abbreviation NL :: char where "NL \<equiv> CHR 0x0A"
abbreviation TAB :: char where "TAB \<equiv> CHR 0x09"
abbreviation NUL :: char where "NUL \<equiv> CHR 0x00"

datatype error =
    UnavailablePrototypes   \<comment> \<open>ValueError: Prototypes are not available for one or more of the requested functions.\<close>
  | InvalidArchitecture     \<comment> \<open>ValueError: ERROR: Invalid defined architecture. Must be "x64" or "x86_64".\<close>
  | InvalidFunctionName     \<comment> \<open>ValueError: Invalid function name provided.\<close>
  | KeyError string         \<comment> \<open>a dictionary read or \<^verbatim>\<open>del\<close> at a missing key\<close>
  | StopIteration           \<comment> \<open>\<^verbatim>\<open>next\<close> on an exhausted generator\<close>
  | StructError             \<comment> \<open>\<^verbatim>\<open>struct.unpack\<close> on a buffer of the wrong size\<close>

text \<open>\<^verbatim>\<open>s.replace(old, new, 1)\<close>: the first occurrence of \<open>old\<close> in \<open>s\<close>, read from the left,
  is replaced; an empty \<open>old\<close> matches at the start.\<close>

fun str_replace1 :: "string \<Rightarrow> string \<Rightarrow> string \<Rightarrow> string" where
  "str_replace1 old new [] = (if old = [] then new else [])"
| "str_replace1 old new (c # cs) =
     (if prefix old (c # cs) then new @ drop (length old) (c # cs)
      else c # str_replace1 old new cs)"


text \<open>\<^verbatim>\<open>s.encode()\<close>: UTF-8, as a list of byte values.\<close>

definition utf8_char :: "char \<Rightarrow> nat list" where
  "utf8_char c = (let n = of_char c in if n < 128 then [n] else [192 + n div 64, 128 + n mod 64])"

definition encode :: "string \<Rightarrow> nat list" where
  "encode s = concat (map utf8_char s)"

text \<open>\<^verbatim>\<open>struct.unpack('<H', b)[0]\<close>: exactly two bytes, little-endian; any other length raises.\<close>

definition unpack_H :: "nat list \<Rightarrow> error + int" where
  "unpack_H bs = (case bs of [b0, b1] \<Rightarrow> Inr (int b0 + 256 * int b1) | _ \<Rightarrow> Inl StructError)"

text \<open>\<^verbatim>\<open>f'{v:08X}'\<close>: upper-case hexadecimal, zero-padded to eight characters, the sign
  counted in the width.\<close>

definition hex_digit :: "nat \<Rightarrow> char" where
  "hex_digit d = ''0123456789ABCDEF'' ! d"

fun to_hex :: "nat \<Rightarrow> string" where
  "to_hex n = (if n < 16 then [hex_digit n] else to_hex (n div 16) @ [hex_digit (n mod 16)])"

definition zfill :: "nat \<Rightarrow> string \<Rightarrow> string" where
  "zfill w s = replicate (w - length s) (CHR ''0'') @ s"

definition format_08X :: "int \<Rightarrow> string" where
  "format_08X v =
     (if v < 0 then CHR ''-'' # zfill 7 (to_hex (nat (- v))) else zfill 8 (to_hex (nat v)))"

text \<open>\<^verbatim>\<open>os.path.basename\<close> (POSIX): what follows the last slash.\<close>

definition os_path_basename :: "string \<Rightarrow> string" where
  "os_path_basename p = rev (takeWhile (\<lambda>c. c \<noteq> CHR ''/'') (rev p))"

text \<open>\<^verbatim>\<open>str.istitle\<close>, with the ASCII letters as the cased characters: an upper-case letter
  may only follow an uncased character, a lower-case letter only a cased one, and there is
  at least one cased character.\<close>

definition isupper :: "char \<Rightarrow> bool" where
  "isupper c = (let n = (of_char c :: nat) in 65 \<le> n \<and> n \<le> 90)"

definition islower :: "char \<Rightarrow> bool" where
  "islower c = (let n = (of_char c :: nat) in 97 \<le> n \<and> n \<le> 122)"

fun istitle_loop :: "bool \<Rightarrow> bool \<Rightarrow> string \<Rightarrow> bool" where
  "istitle_loop cased previous_is_cased [] = cased"
| "istitle_loop cased previous_is_cased (ch # s) =
     (if isupper ch then (if previous_is_cased then False else istitle_loop True True s)
      else if islower ch then (if previous_is_cased then istitle_loop True True s else False)
      else istitle_loop cased False s)"

definition istitle :: "string \<Rightarrow> bool" where
  "istitle s = istitle_loop False False s"

section \<open>The data files and the generator object\<close>

text \<open>
  \<^verbatim>\<open>data/typedefs.json\<close> is a list of entries, \<^verbatim>\<open>data/prototypes.json\<close> a dictionary from
  function names to parameter lists. The files themselves and the two templates
  \<^verbatim>\<open>data/base.c\<close> and \<^verbatim>\<open>data/base.h\<close> are inputs of the program: they are parameters here.
  A dictionary keeps its keys in insertion order, which \<^verbatim>\<open>list(d.keys())\<close> shows, so it is an
  association list with distinct keys: \<open>d[k] = v\<close> is \<^const>\<open>AList.update\<close> (in place
  for a present key, at the end for a new one) and \<open>del d[k]\<close> is \<^const>\<open>AList.delete\<close>.
\<close>

record typedef_entry =
  identifiers :: "string list"
  dependencies :: "string list"
  definition_text :: string

record param =
  param_type :: string
  param_name :: string
  param_in :: bool
  param_out :: bool
  param_optional :: bool

type_synonym prototype_dict = "(string \<times> param list) list"

record sys_whispers =
  function_prefix :: string
  seed :: int
  typedefs :: "typedef_entry list"
  prototypes :: prototype_dict

text \<open>
  The environment of a run: the global \<^verbatim>\<open>args.architecture\<close>, the text of the two
  templates, and the order in which CPython iterates over a set. That order depends on the
  hash seed of the process, so it is a parameter: \<open>list_of_set xs\<close> is \<^verbatim>\<open>list(set(xs))\<close>
  and \<open>set_minus xs ys\<close> is the iteration order of \<^verbatim>\<open>set(xs) - set(ys)\<close>.
\<close>

record environment =
  architecture :: string
  base_c :: string
  base_h :: string
  list_of_set :: "string list \<Rightarrow> string list"
  set_minus :: "nat list \<Rightarrow> nat list \<Rightarrow> nat list"

text \<open>What every iteration order satisfies: the elements of the set, each once.\<close>

definition set_order_ok :: "environment \<Rightarrow> bool" where
  "set_order_ok env =
     ((\<forall>xs. set (list_of_set env xs) = set xs \<and> distinct (list_of_set env xs)) \<and>
      (\<forall>xs ys. set (set_minus env xs ys) = set xs - set ys \<and> distinct (set_minus env xs ys)))"

text \<open>One such order, for running examples: the order of first insertion.\<close>

definition insertion_list_of_set :: "string list \<Rightarrow> string list" where
  "insertion_list_of_set xs = rev (remdups (rev xs))"

definition insertion_set_minus :: "nat list \<Rightarrow> nat list \<Rightarrow> nat list" where
  "insertion_set_minus xs ys = rev (remdups (rev (filter (\<lambda>x. x \<notin> set ys) xs)))"

section \<open>The name hash\<close>

definition ror8 :: "int \<Rightarrow> int" where
  "ror8 v = ((drop_bit 8 v) AND (2 ^ 32 - 1)) OR ((push_bit 24 v) AND (2 ^ 32 - 1))"

text \<open>\<^verbatim>\<open>[s for s in [name[i:i + 2] for i in range(len(name))] if len(s) == 2]\<close>\<close>

definition segments :: "string \<Rightarrow> string list" where
  "segments name =
     filter (\<lambda>s. length s = 2) (map (\<lambda>i. take 2 (drop i name)) [0..<length name])"

fun hash_loop :: "int \<Rightarrow> string list \<Rightarrow> error + int" where
  "hash_loop hash [] = Inr hash"
| "hash_loop hash (segment # rest) =
     (case unpack_H (encode segment) of
        Inl e \<Rightarrow> Inl e
      | Inr partial_name_short \<Rightarrow> hash_loop (hash XOR (partial_name_short + ror8 hash)) rest)"

definition get_function_hash :: "sys_whispers \<Rightarrow> string \<Rightarrow> error + int" where
  "get_function_hash sw function_name =
     (let name = str_replace1 (function_prefix sw) ''Zw'' function_name @ [NUL]
      in hash_loop (seed sw) (segments name))"

section \<open>Prototypes and stubs\<close>

fun render_params :: "param list \<Rightarrow> string" where
  "render_params [] = []"
| "render_params (p # ps) =
     [NL, TAB]
      @ (if param_in p then ''IN '' else [])
      @ (if param_out p then ''OUT '' else [])
      @ param_type p @ '' '' @ param_name p
      @ (if param_optional p then '' OPTIONAL'' else [])
      @ (if ps \<noteq> [] then '','' else '');'')
      @ render_params ps"

definition get_function_prototype :: "sys_whispers \<Rightarrow> string \<Rightarrow> error + string" where
  "get_function_prototype sw function_name =
     (case map_of (prototypes sw) function_name of
        None \<Rightarrow> Inl InvalidFunctionName
      | Some params \<Rightarrow>
          Inr (''EXTERN_C NTSTATUS '' @ function_name @ ''(''
               @ (if params \<noteq> [] then render_params params else '');'')))"

definition asm_code_x64 :: "string \<Rightarrow> int \<Rightarrow> string" where
  "asm_code_x64 function_name function_hash =
     function_name @ '' PROC'' @ [NL]
      @ [TAB] @ ''mov [rsp +8], rcx          ; Save registers.'' @ [NL]
      @ [TAB] @ ''mov [rsp+16], rdx'' @ [NL]
      @ [TAB] @ ''mov [rsp+24], r8'' @ [NL]
      @ [TAB] @ ''mov [rsp+32], r9'' @ [NL]
      @ [TAB] @ ''sub rsp, 28h'' @ [NL]
      @ [TAB] @ ''mov ecx, 0'' @ format_08X function_hash @ ''h        ; Load function hash into ECX.'' @ [NL]
      @ [TAB] @ ''call SW2_GetSyscallNumber  ; Resolve function hash into syscall number.'' @ [NL]
      @ [TAB] @ ''add rsp, 28h'' @ [NL]
      @ [TAB] @ ''mov rcx, [rsp +8]          ; Restore registers.'' @ [NL]
      @ [TAB] @ ''mov rdx, [rsp+16]'' @ [NL]
      @ [TAB] @ ''mov r8, [rsp+24]'' @ [NL]
      @ [TAB] @ ''mov r9, [rsp+32]'' @ [NL]
      @ [TAB] @ ''mov r10, rcx'' @ [NL]
      @ [TAB] @ ''syscall                    ; Invoke system call.'' @ [NL]
      @ [TAB] @ ''ret'' @ [NL]
      @ function_name @ '' ENDP'' @ [NL]"

definition asm_code_x86_64 :: "string \<Rightarrow> int \<Rightarrow> string" where
  "asm_code_x86_64 function_name function_hash =
     function_name @ '' PROC'' @ [NL]
      @ [TAB] @ ''push 0'' @ format_08X function_hash @ ''h'' @ [NL]
      @ [TAB] @ ''call SW2_GetSyscallNumber  ; Resolve function hash into syscall number.'' @ [NL]
      @ [TAB] @ ''add esp, 4'' @ [NL]
      @ [TAB] @ ''mov ecx, fs:[0c0h]'' @ [NL]
      @ [TAB] @ ''test ecx, ecx'' @ [NL]
      @ [TAB] @ ''jne _wow64'' @ [NL]
      @ [TAB] @ ''lea edx, [esp+4h]'' @ [NL]
      @ [TAB] @ ''INT 02eh'' @ [NL]
      @ [TAB] @ ''ret'' @ [NL]
      @ [TAB] @ ''_wow64:'' @ [NL]
      @ [TAB] @ ''xor ecx, ecx'' @ [NL]
      @ [TAB] @ ''lea edx, [esp+4h]'' @ [NL]
      @ [TAB] @ ''call dword ptr fs:[0c0h]'' @ [NL]
      @ [TAB] @ ''ret'' @ [NL]
      @ function_name @ '' ENDP'' @ [NL]"

text \<open>The hash is computed first, whatever the architecture; an unknown architecture adds
  no code.\<close>

definition get_function_asm_code :: "environment \<Rightarrow> sys_whispers \<Rightarrow> string \<Rightarrow> error + string" where
  "get_function_asm_code env sw function_name =
     (case get_function_hash sw function_name of
        Inl e \<Rightarrow> Inl e
      | Inr function_hash \<Rightarrow>
          Inr (if architecture env = ''x64'' then asm_code_x64 function_name function_hash
               else if architecture env = ''x86_64'' then asm_code_x86_64 function_name function_hash
               else []))"

section \<open>Type definitions and their dependencies\<close>

text \<open>\<^verbatim>\<open>next(i for i, t in enumerate(self.typedefs) if n in t['identifiers'])\<close>: the first
  index whose entry lists the name; \<^verbatim>\<open>next\<close> raises when there is none.\<close>

fun first_id :: "typedef_entry list \<Rightarrow> string \<Rightarrow> nat option" where
  "first_id [] n = None"
| "first_id (t # ts) n =
     (if n \<in> set (identifiers t) then Some 0 else map_option Suc (first_id ts n))"

fun names_to_ids :: "typedef_entry list \<Rightarrow> string list \<Rightarrow> error + nat list" where
  "names_to_ids tds [] = Inr []"
| "names_to_ids tds (n # names) =
     (case first_id tds n of
        None \<Rightarrow> Inl StopIteration
      | Some i \<Rightarrow> (case names_to_ids tds names of Inl e \<Rightarrow> Inl e | Inr ids \<Rightarrow> Inr (i # ids)))"

text \<open>The typedefs to use: the parameter types that some entry lists, each once, in the
  order of their first use.\<close>

fun scan_params :: "typedef_entry list \<Rightarrow> param list \<Rightarrow> string list \<Rightarrow> string list" where
  "scan_params tds [] used_typedefs = used_typedefs"
| "scan_params tds (p # ps) used_typedefs =
     scan_params tds ps
       (if filter (\<lambda>t. param_type p \<in> set (identifiers t)) tds \<noteq> [] then
          (if param_type p \<notin> set used_typedefs then used_typedefs @ [param_type p]
           else used_typedefs)
        else used_typedefs)"

fun scan_functions ::
  "typedef_entry list \<Rightarrow> prototype_dict \<Rightarrow> string list \<Rightarrow> string list \<Rightarrow> error + string list" where
  "scan_functions tds protos [] used_typedefs = Inr used_typedefs"
| "scan_functions tds protos (function_name # rest) used_typedefs =
     (case map_of protos function_name of
        None \<Rightarrow> Inl (KeyError function_name)
      | Some params \<Rightarrow> scan_functions tds protos rest (scan_params tds params used_typedefs))"

text \<open>
  The \<^verbatim>\<open>while True\<close> loop that builds the layers. \<open>lower\<close> are the layers
  \<open>0 .. i - 1\<close> and \<open>current\<close> is layer \<open>i\<close>. The loop ends when the current layer
  has no dependencies; on a cyclic catalog it never does, which is the value \<open>None\<close>.
\<close>

partial_function (option) resolve_layers ::
  "environment \<Rightarrow> typedef_entry list \<Rightarrow> nat list list \<Rightarrow> nat list \<Rightarrow> (error + nat list list) option" where
  "resolve_layers env tds lower current =
     (let more_dependencies =
            list_of_set env (concat (map (\<lambda>typedef_id. dependencies (tds ! typedef_id)) current))
      in if more_dependencies \<noteq> [] then
           (case names_to_ids tds more_dependencies of
              Inl e \<Rightarrow> Some (Inl e)
            | Inr ids \<Rightarrow> resolve_layers env tds (lower @ [current]) ids)
         else Some (Inr (lower @ [current])))"

declare resolve_layers.simps [code]

text \<open>\<^verbatim>\<open>for k in range(len(typedef_layers) - 1):
    typedef_layers[k] = set(typedef_layers[k]) - set(typedef_layers[k + 1])\<close>
  Each layer but the last loses the members of the layer right above it; the last layer
  stays the list it was.\<close>

fun remove_duplicates_between_layers :: "environment \<Rightarrow> nat list list \<Rightarrow> nat list list" where
  "remove_duplicates_between_layers env (layer # next_layer # rest) =
     set_minus env layer next_layer # remove_duplicates_between_layers env (next_layer # rest)"
| "remove_duplicates_between_layers env layers = layers"

text \<open>The code of each typedef, from the highest layer down to layer 0.\<close>

definition typedef_code :: "typedef_entry list \<Rightarrow> nat list list \<Rightarrow> string list" where
  "typedef_code tds typedef_layers =
     map (\<lambda>j. definition_text (tds ! j)) (concat (rev typedef_layers))"

definition get_typedefs ::
  "environment \<Rightarrow> sys_whispers \<Rightarrow> string list \<Rightarrow> (error + string list) option" where
  "get_typedefs env sw function_names =
     (case scan_functions (typedefs sw) (prototypes sw) function_names [] of
        Inl e \<Rightarrow> Some (Inl e)
      | Inr used_typedefs \<Rightarrow>
          (case names_to_ids (typedefs sw) used_typedefs of
             Inl e \<Rightarrow> Some (Inl e)
           | Inr layer0 \<Rightarrow>
               (case resolve_layers env (typedefs sw) [] layer0 of
                  None \<Rightarrow> None
                | Some (Inl e) \<Rightarrow> Some (Inl e)
                | Some (Inr typedef_layers) \<Rightarrow>
                    Some (Inr (typedef_code (typedefs sw)
                                 (remove_duplicates_between_layers env typedef_layers))))))"

section \<open>The generation session\<close>

text \<open>
  The files the run writes are a trace of events, oldest first: a file is opened for
  writing (created, or truncated when it exists), and chunks are written to it. A run
  extends the trace it starts from. An exception ends the run where it is raised; the
  events before it stay, as the files stay on disk.
\<close>

datatype io_event = Open_wb string | Write string string

text \<open>Lines 19 to 22: no names means every name of the catalog, in the order of its keys;
  otherwise every name must be a key.\<close>

definition select_function_names :: "prototype_dict \<Rightarrow> string list \<Rightarrow> error + string list" where
  "select_function_names protos function_names =
     (if function_names = [] then Inr (map fst protos)
      else if list_ex (\<lambda>f. f \<notin> set (map fst protos)) function_names then Inl UnavailablePrototypes
      else Inr function_names)"

text \<open>Lines 25 to 34: the loop over the names, with the dictionary it mutates and the list
  of new names it builds.\<close>

fun rename_functions ::
  "string \<Rightarrow> string list \<Rightarrow> prototype_dict \<Rightarrow> string list \<Rightarrow> error + (string list \<times> prototype_dict)" where
  "rename_functions pfx [] protos new_function_names = Inr (new_function_names, protos)"
| "rename_functions pfx (function_name # rest) protos new_function_names =
     (let new_function_name = str_replace1 ''Nt'' pfx function_name
      in if new_function_name \<noteq> function_name then
           (case map_of protos function_name of
              None \<Rightarrow> Inl (KeyError function_name)
            | Some v \<Rightarrow>
                rename_functions pfx rest
                  (AList.delete function_name (AList.update new_function_name v protos))
                  (new_function_names @ [new_function_name]))
         else rename_functions pfx rest protos (new_function_names @ [new_function_name]))"

definition change_function_prefix ::
  "string \<Rightarrow> string list \<times> prototype_dict \<Rightarrow> error + (string list \<times> prototype_dict)" where
  "change_function_prefix pfx st =
     (if pfx \<noteq> ''Nt'' then rename_functions pfx (fst st) (snd st) [] else Inr st)"

text \<open>Lines 36 to 41.\<close>

definition write_c_file :: "environment \<Rightarrow> string \<Rightarrow> io_event list \<Rightarrow> io_event list" where
  "write_c_file env basename fs =
     fs @ [Open_wb (basename @ ''.c''),
           Write (basename @ ''.c'')
             (str_replace1 ''<BASENAME>'' (os_path_basename basename) (base_c env))]"

text \<open>Lines 43 to 56.\<close>

definition asm_path :: "string \<Rightarrow> string" where
  "asm_path basename =
     (let basename_suffix = (if istitle (os_path_basename basename) then ''Stubs'' else ''stubs'');
          basename_suffix = (if CHR ''_'' \<in> set basename then CHR ''_'' # basename_suffix
                             else basename_suffix)
      in basename @ basename_suffix @ ''.asm'')"

text \<open>Lines 48 to 53: what the branch on \<^verbatim>\<open>args.architecture\<close> writes first; no value for the
  branch that raises.\<close>

definition asm_preamble :: "string \<Rightarrow> string option" where
  "asm_preamble arch =
     (if arch = ''x64'' then
        Some (''.CODE'' @ [NL, NL] @ ''EXTERN SW2_GetSyscallNumber: PROC'' @ [NL, NL])
      else if arch = ''x86_64'' then
        Some (''.MODEL FLAT, C'' @ [NL] @ ''.CODE'' @ [NL, NL] @ ''ASSUME FS:NOTHING'' @ [NL, NL]
              @ ''EXTERN SW2_GetSyscallNumber: PROC'' @ [NL, NL])
      else None)"

fun write_stubs ::
  "environment \<Rightarrow> sys_whispers \<Rightarrow> string \<Rightarrow> string list \<Rightarrow> io_event list \<Rightarrow> (error + unit) \<times> io_event list" where
  "write_stubs env sw path [] fs = (Inr (), fs)"
| "write_stubs env sw path (function_name # rest) fs =
     (case get_function_asm_code env sw function_name of
        Inl e \<Rightarrow> (Inl e, fs)
      | Inr code \<Rightarrow> write_stubs env sw path rest (fs @ [Write path (code @ [NL])]))"

text \<open>The file is opened before the architecture is looked at, so the branch that raises
  leaves it behind, empty.\<close>

definition write_asm_file ::
  "environment \<Rightarrow> sys_whispers \<Rightarrow> string list \<Rightarrow> string \<Rightarrow> io_event list \<Rightarrow> (error + unit) \<times> io_event list" where
  "write_asm_file env sw function_names basename fs =
     (let path = asm_path basename;
          fs1 = fs @ [Open_wb path]
      in case asm_preamble (architecture env) of
           None \<Rightarrow> (Inl InvalidArchitecture, fs1)
         | Some preamble \<Rightarrow>
             (case write_stubs env sw path function_names (fs1 @ [Write path preamble]) of
                (Inl e, fs2) \<Rightarrow> (Inl e, fs2)
              | (Inr u, fs2) \<Rightarrow> (Inr (), fs2 @ [Write path ''END''])))"

text \<open>Lines 58 to 77. The typedefs are resolved after the base header is written, and
  before the first of them is.\<close>

fun write_prototypes ::
  "sys_whispers \<Rightarrow> string \<Rightarrow> string list \<Rightarrow> io_event list \<Rightarrow> (error + unit) \<times> io_event list" where
  "write_prototypes sw path [] fs = (Inr (), fs)"
| "write_prototypes sw path (function_name # rest) fs =
     (case get_function_prototype sw function_name of
        Inl e \<Rightarrow> (Inl e, fs)
      | Inr signature \<Rightarrow> write_prototypes sw path rest (fs @ [Write path (signature @ [NL, NL])]))"

definition write_header_file ::
  "environment \<Rightarrow> sys_whispers \<Rightarrow> string list \<Rightarrow> string \<Rightarrow> io_event list \<Rightarrow> ((error + unit) \<times> io_event list) option" where
  "write_header_file env sw function_names basename fs =
     (let path = basename @ ''.h'';
          fs1 = fs @ [Open_wb path,
                      Write path (str_replace1 ''<SEED_VALUE>'' (''0x'' @ format_08X (seed sw)) (base_h env))]
      in case get_typedefs env sw function_names of
           None \<Rightarrow> None
         | Some (Inl e) \<Rightarrow> Some (Inl e, fs1)
         | Some (Inr code) \<Rightarrow>
             (case write_prototypes sw path function_names
                     (fs1 @ map (\<lambda>td. Write path (td @ [NL, NL])) code) of
                (Inl e, fs2) \<Rightarrow> Some (Inl e, fs2)
              | (Inr u, fs2) \<Rightarrow> Some (Inr (), fs2 @ [Write path (''#endif'' @ [NL])])))"

text \<open>\<^verbatim>\<open>generate\<close>: the stages in the order of the source. The result is the error raised,
  or the three paths the run prints, with the trace of file events; \<open>None\<close> is a run
  that never returns.\<close>

definition generate ::
  "environment \<Rightarrow> sys_whispers \<Rightarrow> string list \<Rightarrow> string \<Rightarrow> io_event list \<Rightarrow> ((error + string list) \<times> io_event list) option" where
  "generate env sw function_names basename fs =
     (case select_function_names (prototypes sw) function_names of
        Inl e \<Rightarrow> Some (Inl e, fs)
      | Inr names \<Rightarrow>
          (case change_function_prefix (function_prefix sw) (names, prototypes sw) of
             Inl e \<Rightarrow> Some (Inl e, fs)
           | Inr (function_names', protos') \<Rightarrow>
               (let sw' = sw\<lparr>prototypes := protos'\<rparr>;
                    fs1 = write_c_file env basename fs
                in case write_asm_file env sw' function_names' basename fs1 of
                     (Inl e, fs2) \<Rightarrow> Some (Inl e, fs2)
                   | (Inr u, fs2) \<Rightarrow>
                       (case write_header_file env sw' function_names' basename fs2 of
                          None \<Rightarrow> None
                        | Some (Inl e, fs3) \<Rightarrow> Some (Inl e, fs3)
                        | Some (Inr u', fs3) \<Rightarrow>
                            Some (Inr [basename @ ''.h'', basename @ ''.c'', asm_path basename], fs3)))))"

text \<open>The paths a trace opened for writing, in order.\<close>

fun opened_paths :: "io_event list \<Rightarrow> string list" where
  "opened_paths [] = []"
| "opened_paths (Open_wb p # es) = p # opened_paths es"
| "opened_paths (Write p d # es) = opened_paths es"

text \<open>The chunks a trace wrote to one path, in order.\<close>

fun chunks_of :: "string \<Rightarrow> io_event list \<Rightarrow> string list" where
  "chunks_of path [] = []"
| "chunks_of path (Open_wb p # es) = chunks_of path es"
| "chunks_of path (Write p d # es) = (if p = path then d # chunks_of path es else chunks_of path es)"

section \<open>The properties, in the words of the specification\<close>

subsection \<open>The hash\<close>

definition is_ascii :: "char \<Rightarrow> bool" where
  "is_ascii c = ((of_char c :: nat) < 128)"

text \<open>The name that is hashed: the first occurrence of the configured prefix replaced by
  the canonical \<open>Zw\<close>, and a null terminator appended.\<close>

definition hashed_name :: "sys_whispers \<Rightarrow> string \<Rightarrow> string" where
  "hashed_name sw function_name = str_replace1 (function_prefix sw) ''Zw'' function_name @ [NUL]"

text \<open>One update of the accumulator: \<open>accumulator XOR (u + rotateRight8(accumulator))\<close>.\<close>

definition mix :: "int \<Rightarrow> int \<Rightarrow> int" where
  "mix acc u = acc XOR (u + ror8 acc)"

text \<open>The little-endian 16-bit units of a byte sequence, read two ways. The specification
  reads them as consecutive and non-overlapping, an odd last byte dropped:\<close>

fun disjoint_units :: "int list \<Rightarrow> int list" where
  "disjoint_units (b0 # b1 # bs) = (b0 + 256 * b1) # disjoint_units bs"
| "disjoint_units bs = []"

definition spec_function_hash :: "sys_whispers \<Rightarrow> string \<Rightarrow> int" where
  "spec_function_hash sw function_name =
     foldl mix (seed sw) (disjoint_units (map of_char (hashed_name sw function_name)))"

text \<open>The other reading: one unit at every byte offset but the last, so that each unit
  shares a byte with the next.\<close>

fun overlapping_units :: "int list \<Rightarrow> int list" where
  "overlapping_units (b0 # b1 # bs) = (b0 + 256 * b1) # overlapping_units (b1 # bs)"
| "overlapping_units bs = []"

subsection \<open>The session\<close>

text \<open>The function list of a run, and the catalog as the rewrite leaves it: lines 19 to 34.\<close>

definition function_list :: "sys_whispers \<Rightarrow> string list \<Rightarrow> error + (string list \<times> prototype_dict)" where
  "function_list sw function_names =
     (case select_function_names (prototypes sw) function_names of
        Inl e \<Rightarrow> Inl e
      | Inr names \<Rightarrow> change_function_prefix (function_prefix sw) (names, prototypes sw))"

text \<open>The chunk a run writes for one function: to the assembly file, and to the header.\<close>

definition stub_of :: "environment \<Rightarrow> sys_whispers \<Rightarrow> string \<Rightarrow> string" where
  "stub_of env sw function_name =
     (case get_function_asm_code env sw function_name of Inl e \<Rightarrow> [] | Inr code \<Rightarrow> code @ [NL])"

definition prototype_of :: "sys_whispers \<Rightarrow> string \<Rightarrow> string" where
  "prototype_of sw function_name =
     (case get_function_prototype sw function_name of
        Inl e \<Rightarrow> [] | Inr signature \<Rightarrow> signature @ [NL, NL])"

text \<open>The events of the three files of a run that succeeds, each file from its opening to
  its last chunk.\<close>

definition c_events :: "environment \<Rightarrow> string \<Rightarrow> io_event list" where
  "c_events env basename = write_c_file env basename []"

definition asm_events ::
  "environment \<Rightarrow> sys_whispers \<Rightarrow> string list \<Rightarrow> string \<Rightarrow> io_event list" where
  "asm_events env sw names basename =
     Open_wb (asm_path basename)
     # Write (asm_path basename) (case asm_preamble (architecture env) of None \<Rightarrow> [] | Some t \<Rightarrow> t)
     # map (\<lambda>n. Write (asm_path basename) (stub_of env sw n)) names
     @ [Write (asm_path basename) ''END'']"

definition header_events ::
  "environment \<Rightarrow> sys_whispers \<Rightarrow> string list \<Rightarrow> string list \<Rightarrow> string \<Rightarrow> io_event list" where
  "header_events env sw names code basename =
     Open_wb (basename @ ''.h'')
     # Write (basename @ ''.h'')
         (str_replace1 ''<SEED_VALUE>'' (''0x'' @ format_08X (seed sw)) (base_h env))
     # map (\<lambda>td. Write (basename @ ''.h'') (td @ [NL, NL])) code
     @ map (\<lambda>n. Write (basename @ ''.h'') (prototype_of sw n)) names
     @ [Write (basename @ ''.h'') (''#endif'' @ [NL])]"

text \<open>The name a chunk carries: a stub opens with its label and \<open>PROC\<close> and closes with
  its label and \<open>ENDP\<close>; a prototype names its function before the parameter list.\<close>

definition stub_label :: "string \<Rightarrow> string \<Rightarrow> bool" where
  "stub_label n chunk =
     (prefix (n @ '' PROC'' @ [NL]) chunk \<and> suffix (n @ '' ENDP'' @ [NL, NL]) chunk)"

definition prototype_name :: "string \<Rightarrow> string \<Rightarrow> bool" where
  "prototype_name n chunk = prefix (''EXTERN_C NTSTATUS '' @ n @ ''('') chunk"

text \<open>An event that writes a chunk to the given path.\<close>

fun writes_to :: "string \<Rightarrow> io_event \<Rightarrow> bool" where
  "writes_to path (Write p d) = (p = path)"
| "writes_to path (Open_wb p) = False"

subsection \<open>The typedefs\<close>

text \<open>The parameters whose type some entry of the type catalog lists, and a prototype
  catalog with the other parameters left out.\<close>

definition known_params :: "typedef_entry list \<Rightarrow> param list \<Rightarrow> param list" where
  "known_params tds params = filter (\<lambda>p. first_id tds (param_type p) \<noteq> None) params"

definition without_unknown_params :: "typedef_entry list \<Rightarrow> prototype_dict \<Rightarrow> prototype_dict" where
  "without_unknown_params tds protos = map (\<lambda>(n, params). (n, known_params tds params)) protos"

subsection \<open>Example inputs\<close>

definition example_hasher :: "int \<Rightarrow> sys_whispers" where
  "example_hasher s = \<lparr>function_prefix = ''Nt'', seed = s, typedefs = [], prototypes = []\<rparr>"

definition example_env :: "string \<Rightarrow> environment" where
  "example_env arch =
     \<lparr>architecture = arch, base_c = ''// <BASENAME>.c'', base_h = ''// seed <SEED_VALUE>'',
      list_of_set = insertion_list_of_set, set_minus = insertion_set_minus\<rparr>"

definition example_typedef :: "string \<Rightarrow> string list \<Rightarrow> typedef_entry" where
  "example_typedef name deps =
     \<lparr>identifiers = [name], dependencies = deps, definition_text = ''typedef '' @ name\<rparr>"

definition example_param :: "string \<Rightarrow> param" where
  "example_param ty =
     \<lparr>param_type = ty, param_name = ''p'', param_in = True, param_out = False,
      param_optional = False\<rparr>"

text \<open>A catalog of one function with one parameter, whose type is a typedef.\<close>

definition example_catalog :: "string \<Rightarrow> sys_whispers" where
  "example_catalog pfx =
     \<lparr>function_prefix = pfx, seed = 0x10000000,
      typedefs = [example_typedef ''HANDLE'' []],
      prototypes = [(''NtClose'', [example_param ''HANDLE''])]\<rparr>"

text \<open>A catalog whose typedefs form a chain: \<open>A\<close> needs \<open>B\<close>, which needs \<open>C\<close>; its
  function has a parameter of type \<open>A\<close> and one of type \<open>C\<close>.\<close>

definition chain_catalog :: sys_whispers where
  "chain_catalog =
     \<lparr>function_prefix = ''Nt'', seed = 0x10000000,
      typedefs = [example_typedef ''A'' [''B''], example_typedef ''B'' [''C''],
                  example_typedef ''C'' []],
      prototypes = [(''NtF'', [example_param ''A'', example_param ''C''])]\<rparr>"

text \<open>A catalog whose typedef \<open>A\<close> names a dependency that no entry defines; its function
  has a parameter of type \<open>A\<close> and one of a type that no entry defines.\<close>

definition dangling_catalog :: sys_whispers where
  "dangling_catalog =
     \<lparr>function_prefix = ''Nt'', seed = 0x10000000,
      typedefs = [example_typedef ''A'' [''B'']],
      prototypes = [(''NtF'', [example_param ''A'', example_param ''ULONG''])]\<rparr>"

section \<open>The name hash: proofs\<close>

lemma segments_Nil: "segments [] = []"
  by (simp add: segments_def)

lemma segments_single: "segments [a] = []"
  by (simp add: segments_def)

lemma segments_Cons2: "segments (a # b # cs) = [a, b] # segments (b # cs)"
proof -
  have "[0..<Suc (Suc (length cs))] = 0 # map Suc [0..<Suc (length cs)]"
    by (simp only: map_Suc_upt upt_conv_Cons [of 0 "Suc (Suc (length cs))"])
  then show ?thesis
    by (simp add: segments_def comp_def del: upt_Suc)
qed

lemma unpack_H_pair:
  "unpack_H (encode [a, b]) =
     (if is_ascii a \<and> is_ascii b then Inr (of_char a + 256 * of_char b) else Inl StructError)"
  by (simp add: unpack_H_def encode_def utf8_char_def is_ascii_def Let_def of_nat_of_char)

lemma hash_loop_segments:
  "hash_loop h (segments name) =
     (if list_all is_ascii name \<or> length name < 2
      then Inr (foldl mix h (overlapping_units (map of_char name))) else Inl StructError)"
proof (induction name arbitrary: h rule: induct_list012)
  case 1
  show ?case by (simp add: segments_Nil)
next
  case (2 a)
  show ?case by (simp add: segments_single)
next
  case (3 a b cs)
  show ?case
  proof (cases "is_ascii a \<and> is_ascii b")
    case True
    then have "hash_loop h (segments (a # b # cs)) =
        hash_loop (mix h (of_char a + 256 * of_char b)) (segments (b # cs))"
      by (simp add: segments_Cons2 unpack_H_pair mix_def)
    with True show ?thesis
      by (auto simp add: "3.IH"(2))
  next
    case False
    then show ?thesis
      by (auto simp add: segments_Cons2 unpack_H_pair)
  qed
qed

lemma bit_below_2p32:
  assumes "0 \<le> v" "v < 2 ^ 32" "bit (v::int) n"
  shows "n < 32"
proof (rule ccontr)
  assume "\<not> n < 32"
  then have "32 \<le> n" by simp
  then have "(2::int) ^ 32 \<le> 2 ^ n" by (rule power_increasing) simp
  with assms(2) have "v < 2 ^ n" by simp
  with assms(1) have "v div 2 ^ n = 0" by simp
  with assms(3) show False by (simp add: bit_iff_odd)
qed

lemma mask_2p32: "(2::int) ^ 32 - 1 = mask 32"
  by (simp add: mask_eq_exp_minus_1)

lemma ror8_bit_low:
  assumes "n < 24"
  shows "bit (ror8 v) n = bit (uint (word_rotr 8 (word_of_int v :: 32 word))) n"
proof -
  from assms have "(n + 8) mod 32 = n + 8" by simp
  with assms show ?thesis
    unfolding ror8_def mask_2p32
    by (simp add: bit_simps add.commute)
qed

lemma ror8_bit_high:
  assumes "0 \<le> v" "v < 2 ^ 32" "\<not> n < 24" "n < 32"
  shows "bit (ror8 v) n = bit (uint (word_rotr 8 (word_of_int v :: 32 word))) n"
proof -
  from assms(3) obtain k where n: "n = 24 + k"
    by (metis le_add_diff_inverse not_less)
  with assms(4) have k: "k < 8" by simp
  have nb: "\<not> bit v (32 + k)"
    using bit_below_2p32 [OF assms(1,2), of "32 + k"] by auto
  have A: "\<not> bit (drop_bit 8 v AND mask 32) n"
    using nb by (simp add: bit_and_iff bit_drop_bit_eq n)
  have B: "bit (push_bit 24 v AND mask 32) n = bit v k"
    using k by (simp add: bit_and_iff bit_push_bit_iff bit_mask_iff n)
  have "24 + k + 8 = 32 + k" by simp
  then have "(24 + k + 8) mod 32 = k" using k by (simp only: mod_add_self1 mod_less)
  then have C: "bit (uint (word_rotr 8 (word_of_int v :: 32 word))) n = bit v k"
    using k by (simp add: bit_uint_iff bit_word_rotr_iff bit_word_of_int_iff n)
  show ?thesis
    unfolding ror8_def mask_2p32 using A B C by (simp add: bit_or_iff)
qed

lemma ror8_bit_beyond:
  assumes "\<not> n < 32"
  shows "bit (ror8 v) n = bit (uint (word_rotr 8 (word_of_int v :: 32 word))) n"
  using assms unfolding ror8_def mask_2p32
  by (simp add: bit_simps)

lemma ror8_rotate:
  assumes "0 \<le> v" "v < 2 ^ 32"
  shows "ror8 v = uint (word_rotr 8 (word_of_int v :: 32 word))"
proof (rule bit_eqI)
  fix n :: nat
  consider "n < 24" | "\<not> n < 24" "n < 32" | "\<not> n < 32" by blast
  then show "bit (ror8 v) n = bit (uint (word_rotr 8 (word_of_int v :: 32 word))) n"
  proof cases
    case 1
    then show ?thesis by (rule ror8_bit_low)
  next
    case 2
    then show ?thesis by (rule ror8_bit_high [OF assms])
  next
    case 3
    then show ?thesis by (rule ror8_bit_beyond)
  qed
qed

lemmas hash_eval =
  get_function_hash_def segments_def encode_def utf8_char_def unpack_H_def ror8_def
  upt_conv_Cons example_hasher_def

lemma hashed_name_short_ascii:
  assumes "length (hashed_name sw function_name) < 2"
  shows "list_all is_ascii (hashed_name sw function_name)"
proof -
  from assms have "str_replace1 (function_prefix sw) ''Zw'' function_name = []"
    by (simp add: hashed_name_def)
  then show ?thesis
    by (simp add: hashed_name_def is_ascii_def)
qed

lemma get_function_hash_units:
  "get_function_hash sw function_name =
     (if list_all is_ascii (hashed_name sw function_name)
      then Inr (foldl mix (seed sw) (overlapping_units (map of_char (hashed_name sw function_name))))
      else Inl StructError)"
  using hashed_name_short_ascii [of sw function_name]
  unfolding get_function_hash_def Let_def hashed_name_def [symmetric] hash_loop_segments
  by auto

text \<open>
  C2 as the specification has it: the bytes of the name are consumed two at a time, as
  consecutive non-overlapping 16-bit units. The code takes \<^verbatim>\<open>name[i:i + 2]\<close> for every
  index \<open>i\<close>, so the units overlap: \<open>ZwClose\<close> and its terminator are eight bytes, which the
  specification reads as four units and the code as seven. With the seed \<open>0x10000000\<close>
  the code returns 110889845 and the specification's reading gives 819999303.
\<close>

theorem get_function_hash_not_disjoint_units:
  "get_function_hash (example_hasher 0x10000000) ''NtClose'' = Inr 110889845
   \<and> spec_function_hash (example_hasher 0x10000000) ''NtClose'' = 819999303"
  by (simp add: hash_eval spec_function_hash_def hashed_name_def mix_def)

text \<open>
  C2, amended. For every seed and every function name: the first occurrence of the
  configured prefix is replaced by \<open>Zw\<close> and a null terminator is appended; when every
  character of that name is ASCII, the hash is the accumulator that starts at the seed and
  is updated, for the little-endian 16-bit unit \<open>u\<close> at every byte offset but the last
  (each unit shares a byte with the next), as \<open>accumulator XOR (u + ror8 accumulator)\<close>;
  a name with a character that is not ASCII raises \<^verbatim>\<open>struct.error\<close>. On a value of 32
  bits \<open>ror8\<close> is the rotation to the right by 8 bits.
\<close>

theorem get_function_hash_overlapping_units:
  "get_function_hash sw function_name =
     (if list_all is_ascii (hashed_name sw function_name)
      then Inr (foldl mix (seed sw) (overlapping_units (map of_char (hashed_name sw function_name))))
      else Inl StructError)
   \<and> (0 \<le> v \<and> v < 2 ^ 32 \<longrightarrow> ror8 v = uint (word_rotr 8 (word_of_int v :: 32 word)))"
  using get_function_hash_units ror8_rotate by blast

theorem get_function_hash_overlapping_units_witness:
  "get_function_hash (example_hasher 0x10000000) ''NtClose''
     = Inr (foldl mix 0x10000000 [0x775A, 0x4377, 0x6C43, 0x6F6C, 0x736F, 0x6573, 0x0065])
   \<and> (0::int) \<le> 0x12345678 \<and> (0x12345678::int) < 2 ^ 32
   \<and> ror8 0x12345678 = uint (word_rotr 8 (0x12345678 :: 32 word))"
  using get_function_hash_overlapping_units [of "example_hasher 0x10000000" "''NtClose''" "0x12345678"]
  by (simp add: hashed_name_def example_hasher_def is_ascii_def)

text \<open>
  C4. The specification gives the hasher the contract \<open>hash(seed: u32, name) \<rightarrow> u32\<close>. The
  code masks the two halves of the rotation to 32 bits but not the sum it adds them to, so
  the accumulator can pass \<open>2^32\<close>: with the seed \<open>0xFFFFFFFF\<close>, which
  \<^verbatim>\<open>random.randint(2 ** 28, 2 ** 32 - 1)\<close> can return, the hash of \<open>NtClose\<close> is
  \<open>0x13C921D1A\<close>, and the stub prints it with nine hexadecimal digits.
\<close>

theorem get_function_hash_exceeds_u32:
  "get_function_hash (example_hasher 0xFFFFFFFF) ''NtClose'' = Inr 0x13C921D1A
   \<and> (2::int) ^ 32 \<le> 0x13C921D1A
   \<and> format_08X 0x13C921D1A = ''13C921D1A''"
proof -
  have "get_function_hash (example_hasher 0xFFFFFFFF) ''NtClose'' = Inr 0x13C921D1A"
    by (simp add: hash_eval)
  moreover have "format_08X 0x13C921D1A = ''13C921D1A''"
    by (simp add: format_08X_def zfill_def hex_digit_def)
  moreover have "(2::int) ^ 32 \<le> 0x13C921D1A"
    by simp
  ultimately show ?thesis by (intro conjI)
qed

section \<open>The generation session: proofs\<close>

lemma write_stubs_result:
  "write_stubs env sw path names fs =
     (case find (\<lambda>n. isl (get_function_asm_code env sw n)) names of
        None \<Rightarrow> (Inr (), fs @ map (\<lambda>n. Write path (stub_of env sw n)) names)
      | Some bad \<Rightarrow>
          (Inl (projl (get_function_asm_code env sw bad)),
           fs @ map (\<lambda>n. Write path (stub_of env sw n))
                  (takeWhile (\<lambda>n. \<not> isl (get_function_asm_code env sw n)) names)))"
proof (induction names arbitrary: fs)
  case Nil
  show ?case by simp
next
  case (Cons n names)
  show ?case
  proof (cases "get_function_asm_code env sw n")
    case (Inl e)
    then show ?thesis by simp
  next
    case (Inr code)
    then show ?thesis by (simp add: Cons.IH stub_of_def split: option.splits)
  qed
qed

lemma write_prototypes_result:
  "write_prototypes sw path names fs =
     (case find (\<lambda>n. isl (get_function_prototype sw n)) names of
        None \<Rightarrow> (Inr (), fs @ map (\<lambda>n. Write path (prototype_of sw n)) names)
      | Some bad \<Rightarrow>
          (Inl (projl (get_function_prototype sw bad)),
           fs @ map (\<lambda>n. Write path (prototype_of sw n))
                  (takeWhile (\<lambda>n. \<not> isl (get_function_prototype sw n)) names)))"
proof (induction names arbitrary: fs)
  case Nil
  show ?case by simp
next
  case (Cons n names)
  show ?case
  proof (cases "get_function_prototype sw n")
    case (Inl e)
    then show ?thesis by simp
  next
    case (Inr signature)
    then show ?thesis by (simp add: Cons.IH prototype_of_def split: option.splits)
  qed
qed

lemma write_stubs_Inr:
  assumes "write_stubs env sw path names fs = (Inr u, fs')"
  shows "fs' = fs @ map (\<lambda>n. Write path (stub_of env sw n)) names"
    and "find (\<lambda>n. isl (get_function_asm_code env sw n)) names = None"
  using assms unfolding write_stubs_result by (simp_all split: option.splits)

lemma write_prototypes_Inr:
  assumes "write_prototypes sw path names fs = (Inr u, fs')"
  shows "fs' = fs @ map (\<lambda>n. Write path (prototype_of sw n)) names"
    and "find (\<lambda>n. isl (get_function_prototype sw n)) names = None"
  using assms unfolding write_prototypes_result by (simp_all split: option.splits)

lemma write_asm_file_Inr:
  assumes "write_asm_file env sw names basename fs = (Inr u, fs')"
  shows "fs' = fs @ asm_events env sw names basename"
    and "asm_preamble (architecture env) \<noteq> None"
    and "find (\<lambda>n. isl (get_function_asm_code env sw n)) names = None"
  using assms
  by (auto simp add: write_asm_file_def Let_def asm_events_def
      split: option.splits prod.splits sum.splits dest: write_stubs_Inr)

lemma write_header_file_Inr:
  assumes "write_header_file env sw names basename fs = Some (Inr u, fs')"
  shows "\<exists>code. get_typedefs env sw names = Some (Inr code)
           \<and> fs' = fs @ header_events env sw names code basename
           \<and> find (\<lambda>n. isl (get_function_prototype sw n)) names = None"
  using assms
  by (auto simp add: write_header_file_def Let_def header_events_def
      split: option.splits prod.splits sum.splits dest: write_prototypes_Inr)

lemma generate_Inr:
  assumes "generate env sw function_names basename fs = Some (Inr r, fs')"
  shows "\<exists>names protos code.
           function_list sw function_names = Inr (names, protos)
         \<and> asm_preamble (architecture env) \<noteq> None
         \<and> get_typedefs env (sw\<lparr>prototypes := protos\<rparr>) names = Some (Inr code)
         \<and> r = [basename @ ''.h'', basename @ ''.c'', asm_path basename]
         \<and> fs' = fs @ c_events env basename
                     @ asm_events env (sw\<lparr>prototypes := protos\<rparr>) names basename
                     @ header_events env (sw\<lparr>prototypes := protos\<rparr>) names code basename
         \<and> find (\<lambda>n. isl (get_function_asm_code env (sw\<lparr>prototypes := protos\<rparr>) n)) names = None
         \<and> find (\<lambda>n. isl (get_function_prototype (sw\<lparr>prototypes := protos\<rparr>) n)) names = None"
proof -
  from assms obtain names where sel: "select_function_names (prototypes sw) function_names = Inr names"
    by (auto simp add: generate_def split: sum.splits)
  with assms obtain names' protos where
    chg: "change_function_prefix (function_prefix sw) (names, prototypes sw) = Inr (names', protos)"
    by (auto simp add: generate_def split: sum.splits)
  let ?sw = "sw\<lparr>prototypes := protos\<rparr>"
  let ?fs1 = "write_c_file env basename fs"
  from assms sel chg obtain u fs2 where
    asm: "write_asm_file env ?sw names' basename ?fs1 = (Inr u, fs2)"
    by (auto simp add: generate_def Let_def split: sum.splits prod.splits)
  with assms sel chg obtain u' where
    hdr: "write_header_file env ?sw names' basename fs2 = Some (Inr u', fs')"
    and r: "r = [basename @ ''.h'', basename @ ''.c'', asm_path basename]"
    by (auto simp add: generate_def Let_def split: sum.splits prod.splits option.splits)
  from write_header_file_Inr [OF hdr] obtain code where
    code: "get_typedefs env ?sw names' = Some (Inr code)"
    and fs': "fs' = fs2 @ header_events env ?sw names' code basename"
    and ps: "find (\<lambda>n. isl (get_function_prototype ?sw n)) names' = None"
    by blast
  have fl: "function_list sw function_names = Inr (names', protos)"
    by (simp add: function_list_def sel chg)
  have c: "?fs1 = fs @ c_events env basename"
    by (simp add: write_c_file_def c_events_def)
  from write_asm_file_Inr [OF asm] c fs' fl code r ps show ?thesis
    by simp
qed


lemma scan_functions_keys:
  assumes "scan_functions tds protos names used = Inr used'" "n \<in> set names"
  shows "\<exists>params. map_of protos n = Some params"
  using assms
  by (induction names arbitrary: used) (auto split: option.splits)

lemma get_typedefs_keys:
  assumes "get_typedefs env sw names = Some (Inr code)" "n \<in> set names"
  shows "\<exists>params. map_of (prototypes sw) n = Some params"
proof -
  from assms(1) obtain used where
    "scan_functions (typedefs sw) (prototypes sw) names [] = Inr used"
    by (auto simp add: get_typedefs_def split: sum.splits)
  then show ?thesis using assms(2) by (rule scan_functions_keys)
qed

lemma find_isl_None:
  assumes "\<And>n. n \<in> set names \<Longrightarrow> \<exists>v. f n = Inr v"
  shows "find (\<lambda>n. isl (f n)) names = None"
  using assms by (fastforce simp add: find_None_iff)

lemma generate_success:
  assumes fl: "function_list sw function_names = Inr (names, protos)"
    and arch: "asm_preamble (architecture env) \<noteq> None"
    and ascii: "list_all (\<lambda>n. list_all is_ascii (hashed_name sw n)) names"
    and code: "get_typedefs env (sw\<lparr>prototypes := protos\<rparr>) names = Some (Inr code)"
  shows "generate env sw function_names basename fs =
           Some (Inr [basename @ ''.h'', basename @ ''.c'', asm_path basename],
                 fs @ c_events env basename
                    @ asm_events env (sw\<lparr>prototypes := protos\<rparr>) names basename
                    @ header_events env (sw\<lparr>prototypes := protos\<rparr>) names code basename)"
proof -
  let ?sw = "sw\<lparr>prototypes := protos\<rparr>"
  have hn: "hashed_name ?sw n = hashed_name sw n" for n
    by (simp add: hashed_name_def)
  have stubs: "find (\<lambda>n. isl (get_function_asm_code env ?sw n)) names = None"
  proof (rule find_isl_None)
    fix n assume "n \<in> set names"
    with ascii have "list_all is_ascii (hashed_name ?sw n)"
      by (simp add: list_all_iff hn)
    then show "\<exists>v. get_function_asm_code env ?sw n = Inr v"
      by (simp add: get_function_asm_code_def get_function_hash_units)
  qed
  have protos: "find (\<lambda>n. isl (get_function_prototype ?sw n)) names = None"
  proof (rule find_isl_None)
    fix n assume "n \<in> set names"
    with get_typedefs_keys [OF code] obtain params where "map_of (prototypes ?sw) n = Some params"
      by blast
    then show "\<exists>v. get_function_prototype ?sw n = Inr v"
      by (simp add: get_function_prototype_def)
  qed
  from arch obtain pre where pre: "asm_preamble (architecture env) = Some pre"
    by blast
  have asm: "write_asm_file env ?sw names basename fs1 =
      (Inr (), fs1 @ asm_events env ?sw names basename)" for fs1
    by (simp add: write_asm_file_def Let_def pre write_stubs_result stubs asm_events_def)
  have hdr: "write_header_file env ?sw names basename fs2 =
      Some (Inr (), fs2 @ header_events env ?sw names code basename)" for fs2
    by (simp add: write_header_file_def Let_def code write_prototypes_result protos
        header_events_def)
  from fl obtain sel where
    sel: "select_function_names (prototypes sw) function_names = Inr sel"
    and chg: "change_function_prefix (function_prefix sw) (sel, prototypes sw) = Inr (names, protos)"
    by (auto simp add: function_list_def split: sum.splits)
  have c: "write_c_file env basename fs = fs @ c_events env basename"
    by (simp add: write_c_file_def c_events_def)
  show ?thesis
    by (simp add: generate_def sel chg Let_def asm hdr c)
qed

lemma resolve_layers_leaf:
  assumes "concat (map (\<lambda>typedef_id. dependencies (tds ! typedef_id)) current) = []"
    and "list_of_set env [] = []"
  shows "resolve_layers env tds lower current = Some (Inr (lower @ [current]))"
proof -
  from assms have "list_of_set env (concat (map (\<lambda>typedef_id. dependencies (tds ! typedef_id)) current)) = []"
    by (simp only:)
  then show ?thesis
    by (subst resolve_layers.simps) (simp only: Let_def simp_thms if_False)
qed

lemmas example_defs =
  example_env_def example_catalog_def example_typedef_def example_param_def
  insertion_list_of_set_def insertion_set_minus_def

lemma example_typedefs:
  "get_typedefs (example_env arch) (example_catalog pfx\<lparr>prototypes := [(n, [example_param ''HANDLE''])]\<rparr>) [n]
     = Some (Inr [''typedef HANDLE''])"
  by (simp add: get_typedefs_def example_defs resolve_layers_leaf typedef_code_def)

lemma example_run:
  "generate (example_env ''x64'') (example_catalog ''Nt'') [''NtClose''] ''out'' []
     = Some (Inr [''out.h'', ''out.c'', ''outstubs.asm''],
             c_events (example_env ''x64'') ''out''
             @ asm_events (example_env ''x64'') (example_catalog ''Nt'') [''NtClose''] ''out''
             @ header_events (example_env ''x64'') (example_catalog ''Nt'') [''NtClose'']
                 [''typedef HANDLE''] ''out'')"
proof -
  have 1: "function_list (example_catalog ''Nt'') [''NtClose'']
      = Inr ([''NtClose''], [(''NtClose'', [example_param ''HANDLE''])])"
    by (simp add: function_list_def select_function_names_def change_function_prefix_def
        example_catalog_def)
  have 2: "asm_preamble (architecture (example_env ''x64'')) \<noteq> None"
    by (simp add: asm_preamble_def example_env_def)
  have 3: "list_all (\<lambda>n. list_all is_ascii (hashed_name (example_catalog ''Nt'') n)) [''NtClose'']"
    by (simp add: hashed_name_def example_catalog_def is_ascii_def)
  have 4: "example_catalog ''Nt''\<lparr>prototypes := [(''NtClose'', [example_param ''HANDLE''])]\<rparr>
      = example_catalog ''Nt''"
    by (simp add: example_catalog_def)
  have 5: "asm_path ''out'' = ''outstubs.asm''"
    by (simp add: asm_path_def os_path_basename_def istitle_def isupper_def islower_def)
  from generate_success [OF 1 2 3 example_typedefs, of "''out''" "[]"]
  show ?thesis by (simp add: 4 5)
qed


lemma opened_paths_append: "opened_paths (xs @ ys) = opened_paths xs @ opened_paths ys"
  by (induction xs rule: opened_paths.induct) simp_all

lemma opened_paths_writes: "opened_paths (map (\<lambda>x. Write p (f x)) xs) = []"
  by (induction xs) simp_all

lemma chunks_of_append: "chunks_of p (xs @ ys) = chunks_of p xs @ chunks_of p ys"
  by (induction xs rule: chunks_of.induct) simp_all

lemma chunks_of_writes:
  "chunks_of p (map (\<lambda>x. Write q (f x)) xs) = (if q = p then map f xs else [])"
  by (induction xs) auto

lemma asm_path_suffix:
  "\<exists>sfx. asm_path basename = basename @ sfx @ ''.asm'' \<and> sfx \<noteq> [] \<and> hd sfx \<noteq> CHR ''.''"
  by (simp add: asm_path_def Let_def)

lemma asm_path_neq: "asm_path basename \<noteq> basename @ ''.h''" "asm_path basename \<noteq> basename @ ''.c''"
  using asm_path_suffix [of basename] by (auto simp add: neq_Nil_conv)

lemma c_events_paths: "opened_paths (c_events env basename) = [basename @ ''.c'']"
  by (simp add: c_events_def write_c_file_def)

lemma asm_events_paths: "opened_paths (asm_events env sw names basename) = [asm_path basename]"
  by (simp add: asm_events_def opened_paths_append opened_paths_writes)

lemma header_events_paths:
  "opened_paths (header_events env sw names code basename) = [basename @ ''.h'']"
  by (simp add: header_events_def opened_paths_append opened_paths_writes)


text \<open>
  C5. When the list of requested functions holds a name that is not a key of the prototype
  catalog, the run ends with the error of line 22 and the trace of file events is the one it
  started from: none of the three files is opened or written.
\<close>

theorem generate_unknown_function:
  assumes "f \<in> set function_names" "f \<notin> set (map fst (prototypes sw))"
  shows "generate env sw function_names basename fs = Some (Inl UnavailablePrototypes, fs)"
proof -
  from assms(1) have "function_names \<noteq> []" by auto
  moreover from assms have "list_ex (\<lambda>f. f \<notin> set (map fst (prototypes sw))) function_names"
    unfolding list_ex_iff by blast
  ultimately show ?thesis
    by (simp add: generate_def select_function_names_def)
qed

text \<open>C5 at an example: \<open>NtOpenFile\<close> is requested from a catalog that only has
  \<open>NtClose\<close>.\<close>

theorem generate_unknown_function_witness:
  "''NtOpenFile'' \<in> set [''NtClose'', ''NtOpenFile'']
   \<and> ''NtOpenFile'' \<notin> set (map fst (prototypes (example_catalog ''Nt'')))
   \<and> generate (example_env ''x64'') (example_catalog ''Nt'') [''NtClose'', ''NtOpenFile''] ''out'' []
       = Some (Inl UnavailablePrototypes, [])"
  using generate_unknown_function [of "''NtOpenFile''" "[''NtClose'', ''NtOpenFile'']"
      "example_catalog ''Nt''" "example_env ''x64''" "''out''" "[]"]
  by (simp add: example_catalog_def)


text \<open>
  C1 as the specification has it: with an architecture that is neither \<open>x64\<close> nor
  \<open>x86_64\<close>, no file is written. The code looks at the architecture at line 48, after
  the C file is written (lines 36 to 41) and the assembly file is opened (line 47): the run
  with the architecture \<open>arm\<close> ends with the error and leaves the C file, complete, and
  the assembly file, empty.
\<close>

theorem generate_invalid_architecture_writes_files:
  "generate (example_env ''arm'') (example_catalog ''Nt'') [''NtClose''] ''out'' []
     = Some (Inl InvalidArchitecture,
             [Open_wb ''out.c'', Write ''out.c'' ''// out.c'', Open_wb ''outstubs.asm''])"
  by (simp add: generate_def select_function_names_def change_function_prefix_def
      write_c_file_def write_asm_file_def asm_preamble_def asm_path_def os_path_basename_def
      istitle_def isupper_def islower_def example_env_def example_catalog_def Let_def)

text \<open>
  C1, amended. With an architecture that is neither \<open>x64\<close> nor \<open>x86_64\<close>, a run
  whose function list is rejected (lines 19 to 34) ends with that error and writes nothing;
  every other run ends with the architecture error after it has written the C file and
  opened the assembly file, to which it writes nothing. The header is never opened.
\<close>

theorem generate_invalid_architecture:
  assumes "architecture env \<noteq> ''x64''" "architecture env \<noteq> ''x86_64''"
  shows "generate env sw function_names basename fs =
     (case function_list sw function_names of
        Inl e \<Rightarrow> Some (Inl e, fs)
      | Inr (names, protos) \<Rightarrow>
          Some (Inl InvalidArchitecture,
                fs @ c_events env basename @ [Open_wb (asm_path basename)]))"
  using assms
  by (simp add: generate_def function_list_def write_asm_file_def asm_preamble_def Let_def
      c_events_def write_c_file_def split: sum.splits prod.splits)

text \<open>C1, amended, at an example: the architecture \<open>arm\<close> and the prefix \<open>Zw\<close>.\<close>

theorem generate_invalid_architecture_witness:
  "architecture (example_env ''arm'') \<noteq> ''x64'' \<and> architecture (example_env ''arm'') \<noteq> ''x86_64''
   \<and> generate (example_env ''arm'') (example_catalog ''Zw'') [''NtClose''] ''out'' [] =
       Some (Inl InvalidArchitecture,
             c_events (example_env ''arm'') ''out'' @ [Open_wb (asm_path ''out'')])"
  using generate_invalid_architecture [of "example_env ''arm''" "example_catalog ''Zw''"
      "[''NtClose'']" "''out''" "[]"]
  by (simp add: example_env_def example_catalog_def function_list_def select_function_names_def
      change_function_prefix_def Let_def)


text \<open>
  C7 as the specification has it: the header is written first, then the C file, then the
  assembly file. That is the order in which the run prints the three paths when it is done
  (lines 80 to 82), not the order in which it writes them: the example run returns the
  paths header first and has opened the C file, then the assembly file, then the header.
\<close>

theorem generate_opens_c_file_first:
  "map_option (\<lambda>(r, fs'). (r, opened_paths fs'))
     (generate (example_env ''x64'') (example_catalog ''Nt'') [''NtClose''] ''out'' [])
   = Some (Inr [''out.h'', ''out.c'', ''outstubs.asm''], [''out.c'', ''outstubs.asm'', ''out.h''])"
proof -
  have "asm_path ''out'' = ''outstubs.asm''"
    by (simp add: asm_path_def os_path_basename_def istitle_def isupper_def islower_def)
  then show ?thesis
    by (simp add: example_run opened_paths_append c_events_paths asm_events_paths
        header_events_paths)
qed

text \<open>
  C7, amended. Every run that succeeds extends the trace by the opening of the C file and
  writes to it, then the opening of the assembly file and writes to it, then the opening of
  the header and writes to it, and by nothing else: the files are written in the order C
  file, assembly file, header, each completed before the next is opened.
\<close>

theorem generate_writes_c_asm_header:
  assumes "generate env sw function_names basename fs = Some (Inr r, fs')"
  shows "(\<exists>c_writes asm_writes h_writes.
            fs' = fs @ Open_wb (basename @ ''.c'') # c_writes
                     @ Open_wb (asm_path basename) # asm_writes
                     @ Open_wb (basename @ ''.h'') # h_writes
          \<and> list_all (writes_to (basename @ ''.c'')) c_writes
          \<and> list_all (writes_to (asm_path basename)) asm_writes
          \<and> list_all (writes_to (basename @ ''.h'')) h_writes)
       \<and> opened_paths fs' = opened_paths fs @ [basename @ ''.c'', asm_path basename, basename @ ''.h'']"
proof -
  from generate_Inr [OF assms] obtain names protos code where
    fs': "fs' = fs @ c_events env basename
                  @ asm_events env (sw\<lparr>prototypes := protos\<rparr>) names basename
                  @ header_events env (sw\<lparr>prototypes := protos\<rparr>) names code basename"
    by blast
  have "opened_paths fs' = opened_paths fs @ [basename @ ''.c'', asm_path basename, basename @ ''.h'']"
    by (simp add: fs' opened_paths_append c_events_paths asm_events_paths header_events_paths)
  moreover have "\<exists>c_writes asm_writes h_writes.
            fs' = fs @ Open_wb (basename @ ''.c'') # c_writes
                     @ Open_wb (asm_path basename) # asm_writes
                     @ Open_wb (basename @ ''.h'') # h_writes
          \<and> list_all (writes_to (basename @ ''.c'')) c_writes
          \<and> list_all (writes_to (asm_path basename)) asm_writes
          \<and> list_all (writes_to (basename @ ''.h'')) h_writes"
  proof (intro exI conjI)
    let ?sw = "sw\<lparr>prototypes := protos\<rparr>"
    show "fs' = fs @ Open_wb (basename @ ''.c'') # tl (c_events env basename)
                   @ Open_wb (asm_path basename) # tl (asm_events env ?sw names basename)
                   @ Open_wb (basename @ ''.h'') # tl (header_events env ?sw names code basename)"
      by (simp add: fs' c_events_def write_c_file_def asm_events_def header_events_def)
    show "list_all (writes_to (basename @ ''.c'')) (tl (c_events env basename))"
      by (simp add: c_events_def write_c_file_def)
    show "list_all (writes_to (asm_path basename)) (tl (asm_events env ?sw names basename))"
      by (simp add: asm_events_def list_all_iff)
    show "list_all (writes_to (basename @ ''.h'')) (tl (header_events env ?sw names code basename))"
      by (auto simp add: header_events_def list_all_iff)
  qed
  ultimately show ?thesis by blast
qed


text \<open>C7, amended, at the example run, which succeeds.\<close>

theorem generate_writes_c_asm_header_witness:
  "generate (example_env ''x64'') (example_catalog ''Nt'') [''NtClose''] ''out'' []
     = Some (Inr [''out.h'', ''out.c'', ''outstubs.asm''],
             c_events (example_env ''x64'') ''out''
             @ asm_events (example_env ''x64'') (example_catalog ''Nt'') [''NtClose''] ''out''
             @ header_events (example_env ''x64'') (example_catalog ''Nt'') [''NtClose'']
                 [''typedef HANDLE''] ''out'')
   \<and> opened_paths (c_events (example_env ''x64'') ''out''
             @ asm_events (example_env ''x64'') (example_catalog ''Nt'') [''NtClose''] ''out''
             @ header_events (example_env ''x64'') (example_catalog ''Nt'') [''NtClose'']
                 [''typedef HANDLE''] ''out'')
      = [''out.c'', asm_path ''out'', ''out.h'']"
  using generate_writes_c_asm_header [OF example_run] example_run
  by simp


lemma stub_label_asm_code:
  assumes "get_function_asm_code env sw n = Inr code" "asm_preamble (architecture env) \<noteq> None"
  shows "stub_label n (stub_of env sw n)"
proof -
  from assms(2) consider "architecture env = ''x64''" | "architecture env = ''x86_64''"
    by (auto simp add: asm_preamble_def split: if_splits)
  then show ?thesis
  proof cases
    case 1
    with assms(1) obtain h where "stub_of env sw n = asm_code_x64 n h @ [NL]"
      by (auto simp add: stub_of_def get_function_asm_code_def split: sum.splits)
    then show ?thesis
      by (simp add: stub_label_def asm_code_x64_def suffix_def)
  next
    case 2
    with assms(1) obtain h where "stub_of env sw n = asm_code_x86_64 n h @ [NL]"
      by (auto simp add: stub_of_def get_function_asm_code_def split: sum.splits)
    then show ?thesis
      by (simp add: stub_label_def asm_code_x86_64_def suffix_def)
  qed
qed

lemma prototype_name_signature:
  assumes "get_function_prototype sw n = Inr signature"
  shows "prototype_name n (prototype_of sw n)"
  using assms
  by (auto simp add: prototype_name_def prototype_of_def get_function_prototype_def
      split: option.splits)

lemma find_isl_NoneD:
  assumes "find (\<lambda>n. isl (f n)) names = None" "n \<in> set names"
  shows "\<exists>v. f n = Inr v"
proof -
  from assms have "\<not> isl (f n)" by (auto simp add: find_None_iff)
  then show ?thesis by (cases "f n") auto
qed

text \<open>
  C9. In every run that succeeds, the chunks written to the assembly file are the preamble,
  one stub for each name of the function list, in the order of the list, and \<open>END\<close>; the
  chunks written to the header are the base header, the typedefs, one prototype for each
  name of the same list, in the same order, and the \<open>#endif\<close> line. The stub of a name
  carries it as its label and the prototype of a name declares it: the names of the
  prototypes and the labels of the stubs are the same sequence.
\<close>

theorem header_prototypes_match_asm_stubs:
  assumes "generate env sw function_names basename fs = Some (Inr r, fs')"
  shows "\<exists>names protos code new preamble base.
           function_list sw function_names = Inr (names, protos)
         \<and> get_typedefs env (sw\<lparr>prototypes := protos\<rparr>) names = Some (Inr code)
         \<and> fs' = fs @ new
         \<and> chunks_of (asm_path basename) new
             = preamble # map (stub_of env (sw\<lparr>prototypes := protos\<rparr>)) names @ [''END'']
         \<and> chunks_of (basename @ ''.h'') new
             = base # map (\<lambda>td. td @ [NL, NL]) code
                 @ map (prototype_of (sw\<lparr>prototypes := protos\<rparr>)) names @ [''#endif'' @ [NL]]
         \<and> list_all (\<lambda>n. stub_label n (stub_of env (sw\<lparr>prototypes := protos\<rparr>) n)) names
         \<and> list_all (\<lambda>n. prototype_name n (prototype_of (sw\<lparr>prototypes := protos\<rparr>) n)) names"
proof -
  from generate_Inr [OF assms] obtain names protos code where
    fl: "function_list sw function_names = Inr (names, protos)"
    and arch: "asm_preamble (architecture env) \<noteq> None"
    and code: "get_typedefs env (sw\<lparr>prototypes := protos\<rparr>) names = Some (Inr code)"
    and fs': "fs' = fs @ c_events env basename
                  @ asm_events env (sw\<lparr>prototypes := protos\<rparr>) names basename
                  @ header_events env (sw\<lparr>prototypes := protos\<rparr>) names code basename"
    and stubs: "find (\<lambda>n. isl (get_function_asm_code env (sw\<lparr>prototypes := protos\<rparr>) n)) names = None"
    and sigs: "find (\<lambda>n. isl (get_function_prototype (sw\<lparr>prototypes := protos\<rparr>) n)) names = None"
    by blast
  let ?sw = "sw\<lparr>prototypes := protos\<rparr>"
  let ?new = "c_events env basename @ asm_events env ?sw names basename
                @ header_events env ?sw names code basename"
  note neq = asm_path_neq [of basename] asm_path_neq [of basename, symmetric]
  have asm: "chunks_of (asm_path basename) ?new
      = (case asm_preamble (architecture env) of None \<Rightarrow> [] | Some t \<Rightarrow> t)
        # map (stub_of env ?sw) names @ [''END'']"
    using neq
    by (simp add: chunks_of_append chunks_of_writes c_events_def write_c_file_def
        asm_events_def header_events_def)
  have hdr: "chunks_of (basename @ ''.h'') ?new
      = str_replace1 ''<SEED_VALUE>'' (''0x'' @ format_08X (seed ?sw)) (base_h env)
        # map (\<lambda>td. td @ [NL, NL]) code @ map (prototype_of ?sw) names @ [''#endif'' @ [NL]]"
    using neq
    by (simp add: chunks_of_append chunks_of_writes c_events_def write_c_file_def
        asm_events_def header_events_def)
  have l1: "list_all (\<lambda>n. stub_label n (stub_of env ?sw n)) names"
    unfolding list_all_iff
  proof
    fix n assume "n \<in> set names"
    with find_isl_NoneD [OF stubs] obtain c where "get_function_asm_code env ?sw n = Inr c"
      by blast
    then show "stub_label n (stub_of env ?sw n)"
      using arch by (rule stub_label_asm_code)
  qed
  have l2: "list_all (\<lambda>n. prototype_name n (prototype_of ?sw n)) names"
    unfolding list_all_iff
  proof
    fix n assume "n \<in> set names"
    with find_isl_NoneD [OF sigs] obtain c where "get_function_prototype ?sw n = Inr c"
      by blast
    then show "prototype_name n (prototype_of ?sw n)"
      by (rule prototype_name_signature)
  qed
  from fl code fs' asm hdr l1 l2 show ?thesis
    by blast
qed


text \<open>C9 at the example run, which succeeds.\<close>

theorem header_prototypes_match_asm_stubs_witness:
  "generate (example_env ''x64'') (example_catalog ''Nt'') [''NtClose''] ''out'' []
     = Some (Inr [''out.h'', ''out.c'', ''outstubs.asm''],
             c_events (example_env ''x64'') ''out''
             @ asm_events (example_env ''x64'') (example_catalog ''Nt'') [''NtClose''] ''out''
             @ header_events (example_env ''x64'') (example_catalog ''Nt'') [''NtClose'']
                 [''typedef HANDLE''] ''out'')
   \<and> (\<exists>names protos code new preamble base.
           function_list (example_catalog ''Nt'') [''NtClose''] = Inr (names, protos)
         \<and> get_typedefs (example_env ''x64'') (example_catalog ''Nt''\<lparr>prototypes := protos\<rparr>) names
             = Some (Inr code)
         \<and> c_events (example_env ''x64'') ''out''
             @ asm_events (example_env ''x64'') (example_catalog ''Nt'') [''NtClose''] ''out''
             @ header_events (example_env ''x64'') (example_catalog ''Nt'') [''NtClose'']
                 [''typedef HANDLE''] ''out'' = [] @ new
         \<and> chunks_of (asm_path ''out'') new
             = preamble # map (stub_of (example_env ''x64'') (example_catalog ''Nt''\<lparr>prototypes := protos\<rparr>)) names
                 @ [''END'']
         \<and> chunks_of (''out'' @ ''.h'') new
             = base # map (\<lambda>td. td @ [NL, NL]) code
                 @ map (prototype_of (example_catalog ''Nt''\<lparr>prototypes := protos\<rparr>)) names
                 @ [''#endif'' @ [NL]]
         \<and> list_all (\<lambda>n. stub_label n
               (stub_of (example_env ''x64'') (example_catalog ''Nt''\<lparr>prototypes := protos\<rparr>) n)) names
         \<and> list_all (\<lambda>n. prototype_name n
               (prototype_of (example_catalog ''Nt''\<lparr>prototypes := protos\<rparr>) n)) names)"
  using header_prototypes_match_asm_stubs [OF example_run] example_run
  by (intro conjI) assumption+


section \<open>The prefix rewrite: proofs\<close>











section \<open>The typedefs: proofs\<close>

lemma set_order_ok_example: "set_order_ok (example_env arch)"
  by (auto simp add: set_order_ok_def example_env_def insertion_list_of_set_def
      insertion_set_minus_def)

lemma distinct_set_single:
  assumes "distinct l" "set l = {a}"
  shows "l = [a]"
proof -
  from assms have "length l = 1"
    using distinct_card [of l] by simp
  then obtain x where "l = [x]"
    by (cases l) auto
  with assms(2) show ?thesis by simp
qed

lemma distinct_set_pair:
  assumes "distinct l" "set l = {a, b}" "a \<noteq> b"
  shows "l = [a, b] \<or> l = [b, a]"
proof -
  from assms have "length l = 2"
    using distinct_card [of l] by simp
  then obtain x y where l: "l = [x, y]"
    by (cases l; cases "tl l") auto
  with assms(2) have "{x, y} = {a, b}" by simp
  then show ?thesis
    unfolding l by (auto simp add: doubleton_eq_iff)
qed

lemma first_id_filter:
  "(filter (\<lambda>t. n \<in> set (identifiers t)) tds \<noteq> []) = (first_id tds n \<noteq> None)"
  by (induction tds) auto

lemma scan_params_known: "scan_params tds (known_params tds ps) used = scan_params tds ps used"
  by (induction ps arbitrary: used) (simp_all add: known_params_def first_id_filter)

lemma map_of_without_unknown_params:
  "map_of (without_unknown_params tds protos) n = map_option (known_params tds) (map_of protos n)"
  by (induction protos) (auto simp add: without_unknown_params_def)

lemma scan_functions_known:
  "scan_functions tds (without_unknown_params tds protos) names used
     = scan_functions tds protos names used"
  by (induction names arbitrary: used)
    (simp_all add: map_of_without_unknown_params scan_params_known split: option.splits)

lemma names_to_ids_dangling:
  assumes "n \<in> set ns" "first_id tds n = None"
  shows "names_to_ids tds ns = Inl StopIteration"
  using assms
  by (induction ns) (auto split: option.splits sum.splits)

lemma names_to_ids_known:
  assumes "\<forall>n\<in>set ns. first_id tds n \<noteq> None"
  shows "names_to_ids tds ns = Inr (map (\<lambda>n. the (first_id tds n)) ns)"
  using assms
  by (induction ns) (auto split: option.splits sum.splits)

lemma scan_params_set:
  "set (scan_params tds ps used)
     = set used \<union> {param_type p | p. p \<in> set ps \<and> first_id tds (param_type p) \<noteq> None}"
  by (induction ps arbitrary: used) (auto simp add: first_id_filter)

lemma scan_functions_set:
  assumes "scan_functions tds protos names used = Inr used'"
  shows "set used' = set used \<union>
           {param_type p | p n ps. n \<in> set names \<and> map_of protos n = Some ps \<and> p \<in> set ps
              \<and> first_id tds (param_type p) \<noteq> None}"
  using assms
proof (induction names arbitrary: used)
  case Nil
  then show ?case by simp
next
  case (Cons n names)
  from Cons.prems obtain ps where ps: "map_of protos n = Some ps"
    and rest: "scan_functions tds protos names (scan_params tds ps used) = Inr used'"
    by (auto split: option.splits)
  from Cons.IH [OF rest] ps show ?case
    by (auto simp add: scan_params_set)
qed

lemma scan_functions_total:
  assumes "set names \<subseteq> set (map fst protos)"
  shows "\<exists>used'. scan_functions tds protos names used = Inr used'"
  using assms
proof (induction names arbitrary: used)
  case Nil
  show ?case by simp
next
  case (Cons n names)
  from Cons.prems have "n \<in> fst ` set protos" by simp
  then obtain ps where "map_of protos n = Some ps"
    by (metis map_of_eq_None_iff not_None_eq)
  with Cons show ?case by simp
qed

lemma resolve_layers_dangling:
  assumes "i \<in> set current" "d \<in> set (dependencies (tds ! i))" "first_id tds d = None"
    and order: "\<And>xs. set (list_of_set env xs) = set xs"
  shows "resolve_layers env tds lower current = Some (Inl StopIteration)"
proof -
  let ?deps = "list_of_set env (concat (map (\<lambda>typedef_id. dependencies (tds ! typedef_id)) current))"
  from assms(1,2) have "d \<in> set (concat (map (\<lambda>typedef_id. dependencies (tds ! typedef_id)) current))"
    by auto
  then have d: "d \<in> set ?deps"
    by (simp only: order)
  then have ne: "(?deps = []) = False"
    by auto
  from d assms(3) have stop: "names_to_ids tds ?deps = Inl StopIteration"
    by (rule names_to_ids_dangling)
  show ?thesis
    by (subst resolve_layers.simps) (simp only: Let_def ne stop simp_thms if_True sum.case)
qed

lemma get_typedefs_dangling:
  assumes ok: "set_order_ok env"
    and names: "set names \<subseteq> set (map fst (prototypes sw))"
    and f: "f \<in> set names" "map_of (prototypes sw) f = Some params"
    and p: "p \<in> set params" "first_id (typedefs sw) (param_type p) = Some i"
    and d: "d \<in> set (dependencies (typedefs sw ! i))" "first_id (typedefs sw) d = None"
  shows "get_typedefs env sw names = Some (Inl StopIteration)"
proof -
  from scan_functions_total [OF names] obtain used where
    scan: "scan_functions (typedefs sw) (prototypes sw) names [] = Inr used"
    by blast
  note used = scan_functions_set [OF scan]
  from used have known: "\<forall>n\<in>set used. first_id (typedefs sw) n \<noteq> None"
    by auto
  from used f p have "param_type p \<in> set used"
    by auto
  then have "the (first_id (typedefs sw) (param_type p))
      \<in> set (map (\<lambda>n. the (first_id (typedefs sw) n)) used)"
    by auto
  with p(2) have i: "i \<in> set (map (\<lambda>n. the (first_id (typedefs sw) n)) used)"
    by simp
  from ok have order: "\<And>xs. set (list_of_set env xs) = set xs"
    by (simp add: set_order_ok_def)
  have "resolve_layers env (typedefs sw) [] (map (\<lambda>n. the (first_id (typedefs sw) n)) used)
      = Some (Inl StopIteration)"
    using i d order by (rule resolve_layers_dangling)
  then show ?thesis
    by (simp add: get_typedefs_def scan names_to_ids_known [OF known])
qed

lemma dangling_typedefs:
  "get_typedefs (example_env arch) dangling_catalog [''NtF''] = Some (Inl StopIteration)"
proof -
  have "resolve_layers (example_env arch) [example_typedef ''A'' [''B'']] [] [0]
      = Some (Inl StopIteration)"
    by (subst resolve_layers.simps)
      (simp add: Let_def example_env_def example_typedef_def insertion_list_of_set_def)
  then show ?thesis
    by (simp add: get_typedefs_def dangling_catalog_def example_typedef_def example_param_def)
qed

text \<open>
  C6 as the specification has it: a typedef dependency that no entry defines is skipped
  without an error. The code looks a dependency up with \<^verbatim>\<open>next\<close> on a generator
  (line 86), which raises \<^verbatim>\<open>StopIteration\<close> when no entry lists the name: for the
  catalog whose typedef \<open>A\<close> depends on an undefined \<open>B\<close>, the resolution ends with that
  error.
\<close>

theorem get_typedefs_raises_on_missing_dependency:
  "get_typedefs (example_env ''x64'') dangling_catalog [''NtF''] = Some (Inl StopIteration)"
  by (rule dangling_typedefs)

text \<open>
  C6, amended. A parameter whose type no entry of the type catalog lists is skipped: the
  resolution gives what it gives for the catalog without those parameters. A dependency
  that no entry lists is not skipped: when a requested function, all requested functions
  being in the catalog, has a parameter whose type is defined by a typedef that names such
  a dependency, the resolution raises \<^verbatim>\<open>StopIteration\<close>.
\<close>

theorem get_typedefs_unmatched_names:
  "get_typedefs env (sw\<lparr>prototypes := without_unknown_params (typedefs sw) (prototypes sw)\<rparr>) names
     = get_typedefs env sw names
   \<and> (set_order_ok env
        \<and> set names \<subseteq> set (map fst (prototypes sw))
        \<and> f \<in> set names \<and> map_of (prototypes sw) f = Some params
        \<and> p \<in> set params \<and> first_id (typedefs sw) (param_type p) = Some i
        \<and> d \<in> set (dependencies (typedefs sw ! i)) \<and> first_id (typedefs sw) d = None
      \<longrightarrow> get_typedefs env sw names = Some (Inl StopIteration))"
proof (intro conjI impI)
  show "get_typedefs env (sw\<lparr>prototypes := without_unknown_params (typedefs sw) (prototypes sw)\<rparr>) names
     = get_typedefs env sw names"
    by (simp add: get_typedefs_def scan_functions_known split: sum.splits option.splits)
next
  assume "set_order_ok env
        \<and> set names \<subseteq> set (map fst (prototypes sw))
        \<and> f \<in> set names \<and> map_of (prototypes sw) f = Some params
        \<and> p \<in> set params \<and> first_id (typedefs sw) (param_type p) = Some i
        \<and> d \<in> set (dependencies (typedefs sw ! i)) \<and> first_id (typedefs sw) d = None"
  then show "get_typedefs env sw names = Some (Inl StopIteration)"
    using get_typedefs_dangling [of env names sw f params p i d] by blast
qed

text \<open>C6, amended, at two examples: a parameter of the undefined type \<open>ULONG\<close> beside
  one of type \<open>HANDLE\<close>, for which the resolution gives the typedef of \<open>HANDLE\<close>; and
  the catalog whose typedef \<open>A\<close> depends on an undefined \<open>B\<close>.\<close>

theorem get_typedefs_unmatched_names_witness:
  "get_typedefs (example_env ''x64'')
      (example_catalog ''Nt''\<lparr>prototypes := [(''NtClose'', [example_param ''HANDLE''])]\<rparr>)
      [''NtClose'']
     = get_typedefs (example_env ''x64'')
         (example_catalog ''Nt''\<lparr>prototypes :=
            [(''NtClose'', [example_param ''ULONG'', example_param ''HANDLE''])]\<rparr>) [''NtClose'']
   \<and> get_typedefs (example_env ''x64'')
         (example_catalog ''Nt''\<lparr>prototypes :=
            [(''NtClose'', [example_param ''ULONG'', example_param ''HANDLE''])]\<rparr>) [''NtClose'']
     = Some (Inr [''typedef HANDLE''])
   \<and> set_order_ok (example_env ''x64'')
   \<and> set [''NtF''] \<subseteq> set (map fst (prototypes dangling_catalog))
   \<and> map_of (prototypes dangling_catalog) ''NtF'' = Some [example_param ''A'', example_param ''ULONG'']
   \<and> first_id (typedefs dangling_catalog) (param_type (example_param ''A'')) = Some 0
   \<and> ''B'' \<in> set (dependencies (typedefs dangling_catalog ! 0))
   \<and> first_id (typedefs dangling_catalog) ''B'' = None
   \<and> get_typedefs (example_env ''x64'') dangling_catalog [''NtF''] = Some (Inl StopIteration)"
proof -
  note defs = dangling_catalog_def example_typedef_def example_param_def
  let ?sw = "example_catalog ''Nt''\<lparr>prototypes :=
            [(''NtClose'', [example_param ''ULONG'', example_param ''HANDLE''])]\<rparr>"
  have w: "?sw\<lparr>prototypes := without_unknown_params (typedefs ?sw) (prototypes ?sw)\<rparr>
      = example_catalog ''Nt''\<lparr>prototypes := [(''NtClose'', [example_param ''HANDLE''])]\<rparr>"
    by (simp add: without_unknown_params_def known_params_def example_catalog_def
        example_typedef_def example_param_def)
  from get_typedefs_unmatched_names [of "example_env ''x64''" ?sw "[''NtClose'']"]
  have a: "get_typedefs (example_env ''x64'')
      (example_catalog ''Nt''\<lparr>prototypes := [(''NtClose'', [example_param ''HANDLE''])]\<rparr>)
      [''NtClose'']
     = get_typedefs (example_env ''x64'') ?sw [''NtClose'']"
    by (simp only: w)
  note t = example_typedefs [where arch = "''x64''" and pfx = "''Nt''" and n = "''NtClose''"]
  from a t have b: "get_typedefs (example_env ''x64'') ?sw [''NtClose'']
      = Some (Inr [''typedef HANDLE''])"
    by simp
  have 1: "set_order_ok (example_env ''x64'')"
    by (rule set_order_ok_example)
  have 2: "map_of (prototypes dangling_catalog) ''NtF''
      = Some [example_param ''A'', example_param ''ULONG'']"
    by (simp add: dangling_catalog_def)
  have 3: "first_id (typedefs dangling_catalog) (param_type (example_param ''A'')) = Some 0"
    by (simp add: defs)
  have 4: "''B'' \<in> set (dependencies (typedefs dangling_catalog ! 0))"
    by (simp add: defs)
  have 5: "first_id (typedefs dangling_catalog) ''B'' = None"
    by (simp add: defs)
  have 6: "set [''NtF''] \<subseteq> set (map fst (prototypes dangling_catalog))"
    by (simp add: dangling_catalog_def)
  have 7: "''NtF'' \<in> set [''NtF'']" "example_param ''A'' \<in> set [example_param ''A'', example_param ''ULONG'']"
    by simp_all
  from get_typedefs_unmatched_names [of "example_env ''x64''" dangling_catalog "[''NtF'']"
      "''NtF''" "[example_param ''A'', example_param ''ULONG'']" "example_param ''A''" 0 "''B''",
      THEN conjunct2, THEN mp,
      OF conjI [OF 1 conjI [OF 6 conjI [OF 7(1) conjI [OF 2 conjI [OF 7(2) conjI [OF 3 conjI [OF 4 5]]]]]]]]
  have c: "get_typedefs (example_env ''x64'') dangling_catalog [''NtF''] = Some (Inl StopIteration)" .
  from a b 1 6 2 3 4 5 c show ?thesis
    by (intro conjI)
qed

lemma resolve_layers_step:
  assumes "list_of_set env (concat (map (\<lambda>typedef_id. dependencies (tds ! typedef_id)) current)) = d # deps"
    and "names_to_ids tds (d # deps) = Inr ids"
  shows "resolve_layers env tds lower current = resolve_layers env tds (lower @ [current]) ids"
  by (subst resolve_layers.simps) (simp only: Let_def assms list.distinct simp_thms if_True sum.case)

lemma chain_layers:
  assumes "set_order_ok env"
  shows "resolve_layers env (typedefs chain_catalog) [] [0, 2] = Some (Inr [[0, 2], [1], [2]])"
proof -
  note defs = chain_catalog_def example_typedef_def
  from assms have order: "set (list_of_set env xs) = set xs" "distinct (list_of_set env xs)" for xs
    by (simp_all add: set_order_ok_def)
  have e: "list_of_set env [] = []"
    using order(1) [of "[]"] by simp
  have s: "list_of_set env [x] = [x]" for x
    using order [of "[x]"] by (intro distinct_set_single) simp_all
  have 1: "resolve_layers env (typedefs chain_catalog) [] [0, 2]
      = resolve_layers env (typedefs chain_catalog) ([] @ [[0, 2]]) [1]"
    by (rule resolve_layers_step [where d = "''B''" and deps = "[]"]) (simp_all add: defs s)
  have 2: "resolve_layers env (typedefs chain_catalog) [[0, 2]] [1]
      = resolve_layers env (typedefs chain_catalog) ([[0, 2]] @ [[1]]) [2]"
    by (rule resolve_layers_step [where d = "''C''" and deps = "[]"]) (simp_all add: defs s)
  have 3: "resolve_layers env (typedefs chain_catalog) [[0, 2], [1]] [2]
      = Some (Inr ([[0, 2], [1]] @ [[2]]))"
    by (rule resolve_layers_leaf) (simp_all add: defs e)
  show ?thesis
    by (simp only: 1 append_Nil append_Cons 2 3)
qed

lemma chain_typedefs:
  assumes "set_order_ok env"
  shows "get_typedefs env chain_catalog [''NtF'']
      = Some (Inr (''typedef C'' # ''typedef B''
                   # map (\<lambda>j. definition_text (typedefs chain_catalog ! j)) (set_minus env [0, 2] [1])))"
proof -
  note defs = chain_catalog_def example_typedef_def example_param_def
  from assms have order: "set (set_minus env xs ys) = set xs - set ys"
    "distinct (set_minus env xs ys)" for xs ys
    by (simp_all add: set_order_ok_def)
  have m: "set_minus env [1] [2] = [1]"
    using order [of "[1]" "[2]"] by (intro distinct_set_single) simp_all
  have scan: "scan_functions (typedefs chain_catalog) (prototypes chain_catalog) [''NtF''] []
      = Inr [''A'', ''C'']"
    by (simp add: defs)
  have ids: "names_to_ids (typedefs chain_catalog) [''A'', ''C''] = Inr [0, 2]"
    by (simp add: defs)
  have code: "typedef_code (typedefs chain_catalog) [xs, [1], [2]]
      = ''typedef C'' # ''typedef B''
        # map (\<lambda>j. definition_text (typedefs chain_catalog ! j)) xs" for xs
    by (simp add: typedef_code_def defs)
  have "get_typedefs env chain_catalog [''NtF'']
      = Some (Inr (typedef_code (typedefs chain_catalog)
                     (remove_duplicates_between_layers env [[0, 2], [1], [2]])))"
    unfolding get_typedefs_def
    by (simp only: scan ids chain_layers [OF assms] sum.case option.case)
  also have "remove_duplicates_between_layers env [[0, 2], [1], [2]]
      = [set_minus env [0, 2] [1], set_minus env [1] [2], [2]]"
    by (simp only: remove_duplicates_between_layers.simps)
  finally show ?thesis
    by (simp only: m code)
qed

lemma chain_definitions:
  "map (\<lambda>j. definition_text (typedefs chain_catalog ! j)) [0, 2] = [''typedef A'', ''typedef C'']"
  "map (\<lambda>j. definition_text (typedefs chain_catalog ! j)) [2, 0] = [''typedef C'', ''typedef A'']"
  by (simp_all add: chain_catalog_def example_typedef_def)

text \<open>
  C3. The specification has every needed definition exactly once in the result. The code
  removes from a layer only the members of the layer right above it (lines 112 and 113,
  under the comment \<open>Remove duplicates between layers\<close>), so a typedef that stands in two
  layers that are not neighbours is emitted twice. In the chain catalog \<open>A\<close> needs \<open>B\<close>,
  which needs \<open>C\<close>, and the function has a parameter of type \<open>A\<close> and one of type \<open>C\<close>:
  \<open>C\<close> is in layer 0 and in layer 2, and its definition is in the result twice, whatever
  the order in which the sets are iterated.
\<close>

theorem get_typedefs_repeats_definition:
  "get_typedefs (example_env ''x64'') chain_catalog [''NtF'']
     = Some (Inr [''typedef C'', ''typedef B'', ''typedef A'', ''typedef C''])
   \<and> (set_order_ok env
        \<longrightarrow> (\<exists>code. get_typedefs env chain_catalog [''NtF''] = Some (Inr code)
                    \<and> count_list code ''typedef C'' = 2))"
proof (intro conjI impI)
  have "set_minus (example_env ''x64'') [0, 2] [1] = [0, 2]"
    by (simp add: example_env_def insertion_set_minus_def)
  with chain_typedefs [OF set_order_ok_example, of "''x64''"]
  show "get_typedefs (example_env ''x64'') chain_catalog [''NtF'']
     = Some (Inr [''typedef C'', ''typedef B'', ''typedef A'', ''typedef C''])"
    by (simp only: chain_definitions)
next
  assume ok: "set_order_ok env"
  then have "set (set_minus env [0, 2] [1]) = {0, 2}" "distinct (set_minus env [0, 2] [1])"
    by (auto simp add: set_order_ok_def)
  then have "set_minus env [0, 2] [1] = [0, 2] \<or> set_minus env [0, 2] [1] = [2, 0]"
    by (intro distinct_set_pair) simp_all
  then have "count_list (''typedef C'' # ''typedef B''
                   # map (\<lambda>j. definition_text (typedefs chain_catalog ! j)) (set_minus env [0, 2] [1]))
                ''typedef C'' = 2"
    by (auto simp only: chain_definitions) simp_all
  with chain_typedefs [OF ok]
  show "\<exists>code. get_typedefs env chain_catalog [''NtF''] = Some (Inr code)
                    \<and> count_list code ''typedef C'' = 2"
    by blast
qed

text \<open>C3 at the insertion order of sets, which is an order that every set iteration
  satisfies.\<close>

theorem get_typedefs_repeats_definition_witness:
  "set_order_ok (example_env ''x86_64'')
   \<and> (\<exists>code. get_typedefs (example_env ''x86_64'') chain_catalog [''NtF''] = Some (Inr code)
              \<and> count_list code ''typedef C'' = 2)"
  using get_typedefs_repeats_definition [of "example_env ''x86_64''"] set_order_ok_example
  by blast

section \<open>The whole catalog: proofs\<close>
















end
